theory Spec2Isabelle
  imports Main "HOL-Library.Word"
begin

section \<open>Values shared by the migration package\<close>

text \<open>
  A Go \<^verbatim>\<open>error\<close> is an interface value; \<^verbatim>\<open>nil\<close> is "no error". A non-nil error
  is modelled by the text its \<^verbatim>\<open>Error()\<close> method returns, and a possibly-nil one by
  \<open>error option\<close> (\<open>None\<close> is \<^verbatim>\<open>nil\<close>).
\<close>

datatype error = NewError (ErrorString: string)

text \<open>The colour codes of the go-logger package that \<^verbatim>\<open>logger.go\<close> names.\<close>

datatype AnsiColor =
    ColorLightGreen | ColorGreen | ColorRed | ColorBlue | ColorYellow
  | ColorLightBlack | ColorLightWhite | ColorWhite

text \<open>
  A Migration as the Logger sees it: the interface methods \<^verbatim>\<open>Label()\<close> and
  \<^verbatim>\<open>Parent()\<close>. \<open>Parent\<close> is \<open>None\<close> for a root (a nil parent). The value is a
  non-nil interface value whose parent chain is finite, as it is in a tree.
\<close>

datatype Migration = Migration (Label: string) (Parent: "Migration option")

section \<open>The Logger of \<^verbatim>\<open>migration/logger.go\<close>\<close>

text \<open>
  \<^verbatim>\<open>logger.go\<close> holds two revisions of the file (one writes through a
  \<^verbatim>\<open>*logger.Logger\<close>, one through a \<^verbatim>\<open>*logger.Agent\<close>). The functions modelled
  here have the same control flow in both. The output collaborator is out of the
  repository: of it the model keeps the colouring function of its writer (the identity
  on the text when the writer is no \<^verbatim>\<open>TextFormatter\<close>), and the messages triggered on
  it are appended to a list, the \<open>sink\<close>, oldest first.
\<close>

record Agent =
  Colorize :: "string \<Rightarrow> AnsiColor \<Rightarrow> string"

text \<open>
  The struct \<^verbatim>\<open>Logger\<close>. The counters are Go \<^verbatim>\<open>int\<close>s, 64 bits wide on the usual
  targets, so \<open>+ 1\<close> wraps around as the machine's addition does. \<open>Output\<close> is a
  pointer and may be nil.
\<close>

record Logger =
  Output :: "Agent option"
  Phase :: string
  Result :: string
  applied :: "64 word"
  skipped :: "64 word"
  failed :: "64 word"

text \<open>
  \<^verbatim>\<open>fmt.Sprintf("%-5s", s)\<close>: \<open>s\<close> padded on the right with spaces to the width,
  counted in runes. On well-formed UTF-8 the runes are the bytes that are no
  continuation bytes.
\<close>

definition RuneCountInString :: "string \<Rightarrow> nat" where
  "RuneCountInString s =
     length (filter (\<lambda>c. \<not> (128 \<le> (of_char c :: nat) \<and> (of_char c :: nat) < 192)) s)"

definition SprintfLeftAligned :: "nat \<Rightarrow> string \<Rightarrow> string" where
  "SprintfLeftAligned width s = s @ replicate (width - RuneCountInString s) (CHR '' '')"

text \<open>
  The private helpers below run only past the \<^verbatim>\<open>l.Output == nil\<close> return of
  \<^verbatim>\<open>write\<close>, so they take the dereferenced \<open>Output\<close>.
\<close>

definition Logger_colorize :: "Agent \<Rightarrow> string \<Rightarrow> AnsiColor \<Rightarrow> string" where
  "Logger_colorize out s color = Colorize out s color"

definition colorizeFixedWidthLeftAligned :: "Agent \<Rightarrow> string \<Rightarrow> AnsiColor \<Rightarrow> nat \<Rightarrow> string" where
  "colorizeFixedWidthLeftAligned out s color width =
     Logger_colorize out (SprintfLeftAligned width s) color"

text \<open>\<^verbatim>\<open>strings.TrimPrefix\<close>: the string without the prefix, when it starts with it.\<close>

definition TrimPrefix :: "string \<Rightarrow> string \<Rightarrow> string" where
  "TrimPrefix s p = (if take (length p) s = p then drop (length p) s else s)"

definition stackSeparator :: "Agent \<Rightarrow> string" where
  "stackSeparator out = '' '' @ Logger_colorize out ''>'' ColorLightBlack @ '' ''"

text \<open>
  The loop of \<^verbatim>\<open>renderStack\<close>: \<^verbatim>\<open>for cursor != nil\<close>, with the rendered stack
  as accumulator.
\<close>

fun renderStack_loop :: "string \<Rightarrow> Migration option \<Rightarrow> string \<Rightarrow> string" where
  "renderStack_loop sep None renderedStack = renderedStack"
| "renderStack_loop sep (Some (Migration label parent)) renderedStack =
     renderStack_loop sep parent
       (if length label > 0 then sep @ label @ renderedStack else renderedStack)"

definition renderStack :: "Agent \<Rightarrow> Migration \<Rightarrow> AnsiColor \<Rightarrow> string" where
  "renderStack out m color =
     TrimPrefix (renderStack_loop (stackSeparator out) (Parent m) []) '' ''"

text \<open>
  \<^verbatim>\<open>write\<close>: nothing when \<open>Output\<close> is nil; otherwise one message, built in a buffer
  (\<open>write_buffer\<close>), is triggered on the output.
\<close>

definition write_buffer :: "Agent \<Rightarrow> Logger \<Rightarrow> Migration \<Rightarrow> AnsiColor \<Rightarrow> string \<Rightarrow> string" where
  "write_buffer out l m color body =
     (let resultColor =
            (if Result l = ''skipped'' then ColorYellow
             else if Result l = ''failed'' then ColorRed
             else ColorBlue);
          buf0 = colorizeFixedWidthLeftAligned out (Phase l) ColorBlue 5 @ '' ''
                 @ Logger_colorize out ''--'' ColorLightBlack @ '' ''
                 @ colorizeFixedWidthLeftAligned out (Result l) resultColor 5;
          stack = renderStack out m color;
          buf1 = (if length stack > 0 then buf0 @ '' '' @ stack else buf0);
          buf2 = (if length body > 0
                  then buf1 @ '' '' @ Logger_colorize out ''--'' ColorLightBlack @ '' '' @ body
                  else buf1)
      in buf2)"

definition Logger_write :: "Logger \<Rightarrow> Migration \<Rightarrow> AnsiColor \<Rightarrow> string \<Rightarrow> string list \<Rightarrow> string list" where
  "Logger_write l m color body sink =
     (case Output l of
        None \<Rightarrow> sink
      | Some out \<Rightarrow> sink @ [write_buffer out l m color body])"

text \<open>
  The three recording operations. The receiver is a pointer and may be nil (\<open>None\<close>);
  the mutated Logger is returned with the error value and the sink. \<open>body\<close> is the
  message after \<^verbatim>\<open>fmt.Sprintf(body, args...)\<close>. The Migration and the error are
  non-nil interface values: \<^verbatim>\<open>Error\<close> calls \<^verbatim>\<open>err.Error()\<close> and \<^verbatim>\<open>renderStack\<close> calls
  \<^verbatim>\<open>m.Parent()\<close>, which Go cannot do on a nil interface.
\<close>

definition Logger_Applyf ::
  "Logger option \<Rightarrow> Migration \<Rightarrow> string \<Rightarrow> string list \<Rightarrow> error option \<times> Logger option \<times> string list" where
  "Logger_Applyf lp m body sink =
     (case lp of
        None \<Rightarrow> (None, None, sink)
      | Some l \<Rightarrow>
          (let l1 = l\<lparr>applied := applied l + 1\<rparr>;
               l2 = l1\<lparr>Result := ''applied''\<rparr>
           in (None, Some l2, Logger_write l2 m ColorLightGreen body sink)))"

definition Logger_Skipf ::
  "Logger option \<Rightarrow> Migration \<Rightarrow> string \<Rightarrow> string list \<Rightarrow> error option \<times> Logger option \<times> string list" where
  "Logger_Skipf lp m body sink =
     (case lp of
        None \<Rightarrow> (None, None, sink)
      | Some l \<Rightarrow>
          (let l1 = l\<lparr>skipped := skipped l + 1\<rparr>;
               l2 = l1\<lparr>Result := ''skipped''\<rparr>
           in (None, Some l2, Logger_write l2 m ColorGreen body sink)))"

definition Logger_Error ::
  "Logger option \<Rightarrow> Migration \<Rightarrow> error \<Rightarrow> string list \<Rightarrow> error option \<times> Logger option \<times> string list" where
  "Logger_Error lp m err sink =
     (case lp of
        None \<Rightarrow> (Some err, None, sink)
      | Some l \<Rightarrow>
          (let l1 = l\<lparr>failed := failed l + 1\<rparr>;
               l2 = l1\<lparr>Result := ''failed''\<rparr>
           in (Some err, Some l2, Logger_write l2 m ColorRed (ErrorString err) sink)))"

section \<open>The Statements invocable of \<^verbatim>\<open>migration/body_statements.go\<close>\<close>

text \<open>
  A \<^verbatim>\<open>*sql.Tx\<close> is a pointer: nil, or a handle. The connection is modelled by the
  database it talks to and by the list of the statements handed to it, each with
  its transaction, oldest first. What the database does with one statement is the
  driver's, a parameter: it returns the error (or nil) and the database after.
\<close>

type_synonym Tx = "nat option"

record 'db Connection =
  executed :: "(string \<times> Tx) list"
  database :: "'db"

type_synonym 'db driver = "string \<Rightarrow> string \<Rightarrow> Tx \<Rightarrow> 'db \<Rightarrow> error option \<times> 'db"

definition ExecInTxWithCacheLabel ::
  "'db driver \<Rightarrow> 'db Connection \<Rightarrow> string \<Rightarrow> string \<Rightarrow> Tx \<Rightarrow> error option \<times> 'db Connection" where
  "ExecInTxWithCacheLabel drv dbc statement cacheLabel tx =
     (case drv statement cacheLabel tx (database dbc) of
        (err, d) \<Rightarrow> (err, \<lparr>executed = executed dbc @ [(statement, tx)], database = d\<rparr>))"

definition ExecInTx ::
  "'db driver \<Rightarrow> 'db Connection \<Rightarrow> string \<Rightarrow> Tx \<Rightarrow> error option \<times> 'db Connection" where
  "ExecInTx drv dbc statement tx = ExecInTxWithCacheLabel drv dbc statement statement tx"

text \<open>\<^verbatim>\<open>bodyStatements.Invoke\<close>: the \<^verbatim>\<open>range\<close> loop, returning at the first error.\<close>

fun bodyStatements_Invoke ::
  "'db driver \<Rightarrow> string list \<Rightarrow> 'db Connection \<Rightarrow> Tx \<Rightarrow> error option \<times> 'db Connection" where
  "bodyStatements_Invoke drv [] c tx = (None, c)"
| "bodyStatements_Invoke drv (step # bs) c tx =
     (case ExecInTx drv c step tx of
        (Some err, c') \<Rightarrow> (Some err, c')
      | (None, c') \<Rightarrow> bodyStatements_Invoke drv bs c' tx)"

section \<open>The breadcrumb as the specification words it\<close>

text \<open>
  The specification describes the breadcrumb as the ancestors' non-empty labels, root
  first, joined with the separator. These definitions follow those words, to be
  compared with \<open>renderStack\<close>. \<open>ancestors\<close> walks the parent chain from the node up
  to the root (nearest ancestor first), \<open>Join\<close> is \<^verbatim>\<open>strings.Join\<close>.
\<close>

fun ancestorsFrom :: "Migration option \<Rightarrow> Migration list" where
  "ancestorsFrom None = []"
| "ancestorsFrom (Some (Migration label parent)) = Migration label parent # ancestorsFrom parent"

definition ancestors :: "Migration \<Rightarrow> Migration list" where
  "ancestors m = ancestorsFrom (Parent m)"

definition breadcrumbLabels :: "Migration \<Rightarrow> string list" where
  "breadcrumbLabels m = rev (filter (\<lambda>label. label \<noteq> []) (map Label (ancestors m)))"

fun Join :: "string list \<Rightarrow> string \<Rightarrow> string" where
  "Join [] sep = []"
| "Join [a] sep = a"
| "Join (a # b # elems) sep = a @ sep @ Join (b # elems) sep"

definition breadcrumb_joined :: "Agent \<Rightarrow> Migration \<Rightarrow> string" where
  "breadcrumb_joined out m = Join (breadcrumbLabels m) (stackSeparator out)"

section \<open>The engine: guards, invocables, steps and groups\<close>

text \<open>
  The files that define the guards, \<^verbatim>\<open>Step\<close> and \<^verbatim>\<open>Group\<close> are not among the
  sources; only their callers and tests are. This section models them from the
  specification (sections 3, 4.1 to 4.3 and 6). The Logger and the Statements
  invocable it calls are the ones modelled from the code above.
\<close>

text \<open>
  Modelled from the spec: the introspection query of an existence guard, missing with the
  guards' file. The spec gives no query text, only what is looked up: a table, a
  column of a table, a constraint, an index of a table, a role.
\<close>

datatype CatalogQuery =
    TableQuery string | ColumnQuery string string | ConstraintQuery string
  | IndexQuery string string | RoleQuery string

text \<open>
  Modelled from the spec: \<^verbatim>\<open>QueryIsEmpty(statement, tx?, args...) -> (bool, error)\<close> of
  the connection collaborator (section 6): whether the query returns zero rows, or
  the error of running it.
\<close>

type_synonym 'db introspection = "CatalogQuery \<Rightarrow> Tx \<Rightarrow> 'db \<Rightarrow> error + bool"

text \<open>
  Modelled from the spec: the Guard variants of section 3. A dynamic guard carries
  its label and the caller's predicate, which reads the database and does not
  change it (section 4.1).
\<close>

datatype 'db Guard =
    TableExists string | TableNotExists string
  | ColumnExists string string | ColumnNotExists string string
  | ConstraintExists string | ConstraintNotExists string
  | IndexExists string string | IndexNotExists string string
  | RoleExists string | RoleNotExists string
  | DynamicGuard string "'db \<Rightarrow> Tx \<Rightarrow> error + bool"
  | Always

text \<open>
  Modelled from the spec: "row found", the inverse of "zero rows returned"; an error
  of the query stays the error.
\<close>

definition rowFound :: "error + bool \<Rightarrow> error + bool" where
  "rowFound answer = (case answer of Inl err \<Rightarrow> Inl err | Inr isEmpty \<Rightarrow> Inr (\<not> isEmpty))"

text \<open>
  Modelled from the spec: \<^verbatim>\<open>Evaluate(connection, tx) -> (bool, error)\<close> (section 4.1).
  An existence guard issues one introspection query; the \<^verbatim>\<open>*Exists\<close> guard says
  "apply" when a row is found, the \<^verbatim>\<open>*NotExists\<close> guard when none is. The result is
  the error, or \<open>shouldApply\<close>.
\<close>

fun Evaluate :: "'db introspection \<Rightarrow> 'db Guard \<Rightarrow> 'db \<Rightarrow> Tx \<Rightarrow> error + bool" where
  "Evaluate q (TableExists name) d tx = rowFound (q (TableQuery name) tx d)"
| "Evaluate q (TableNotExists name) d tx = q (TableQuery name) tx d"
| "Evaluate q (ColumnExists table column) d tx = rowFound (q (ColumnQuery table column) tx d)"
| "Evaluate q (ColumnNotExists table column) d tx = q (ColumnQuery table column) tx d"
| "Evaluate q (ConstraintExists name) d tx = rowFound (q (ConstraintQuery name) tx d)"
| "Evaluate q (ConstraintNotExists name) d tx = q (ConstraintQuery name) tx d"
| "Evaluate q (IndexExists table name) d tx = rowFound (q (IndexQuery table name) tx d)"
| "Evaluate q (IndexNotExists table name) d tx = q (IndexQuery table name) tx d"
| "Evaluate q (RoleExists name) d tx = rowFound (q (RoleQuery name) tx d)"
| "Evaluate q (RoleNotExists name) d tx = q (RoleQuery name) tx d"
| "Evaluate q (DynamicGuard label predicate) d tx = predicate d tx"
| "Evaluate q Always d tx = Inr True"

text \<open>
  Modelled from the spec: the Invocable variants of section 3, \<^verbatim>\<open>Statements(sql...)\<close>
  and \<^verbatim>\<open>Body(func)\<close>. The constructor \<^verbatim>\<open>Statements\<close> is missing from the sources; it
  runs the \<^verbatim>\<open>bodyStatements\<close> of the code.
\<close>

datatype 'db Invocable =
    Statements "string list"
  | Body "'db Connection \<Rightarrow> Tx \<Rightarrow> error option \<times> 'db Connection"

text \<open>Modelled from the spec: \<^verbatim>\<open>Invoke(connection, tx) -> error\<close> of an Invocable.\<close>

fun Invoke :: "'db driver \<Rightarrow> 'db Invocable \<Rightarrow> 'db Connection \<Rightarrow> Tx \<Rightarrow> error option \<times> 'db Connection" where
  "Invoke drv (Statements sql) c tx = bodyStatements_Invoke drv sql c tx"
| "Invoke drv (Body f) c tx = f c tx"

text \<open>
  Modelled from the spec: the tree of section 3, owned top-down. A Step binds a guard,
  an invocable and a label; a Group has its children in order, a label and
  \<open>shouldAbortOnError\<close>. The parent of a node is the Group that holds it.
\<close>

datatype 'db MigrationNode =
    Step "'db Guard" "'db Invocable" string
  | Group "'db MigrationNode list" string bool

text \<open>
  Modelled from the spec: a record of what one Apply pass does, for the ordering
  properties (the "side-effect log" of section 8). A node is named by its position: the
  child indices from the root of the pass down to it.
\<close>

datatype event =
    ApplyBegin "nat list" | GuardEvaluated "nat list" | InvocableInvoked "nat list"
  | ApplyEnd "nat list" "error option"

fun position :: "event \<Rightarrow> nat list" where
  "position (ApplyBegin at) = at"
| "position (GuardEvaluated at) = at"
| "position (InvocableInvoked at) = at"
| "position (ApplyEnd at err) = at"

text \<open>An event belongs to the subtree at a position when its position starts with it.\<close>

definition under :: "nat list \<Rightarrow> event \<Rightarrow> bool" where
  "under at ev = (take (length at) (position ev) = at)"



text \<open>
  Modelled from the spec: the state one Apply pass threads through the tree: the
  connection, the Reporter of the run (nil when none is configured), the lines it has
  emitted, and the record of events.
\<close>

record 'db Run =
  conn :: "'db Connection"
  reporter :: "Logger option"
  reported :: "string list"
  trace :: "event list"

text \<open>
  Modelled from the spec: what the engine takes from outside: the two capabilities of
  the connection collaborator (section 6), and the two message bodies that the
  pseudo-code of section 4.2 leaves open (\<^verbatim>\<open><guard description>\<close>, \<^verbatim>\<open><summary>\<close>).
\<close>

record 'db Env =
  Execute :: "'db driver"
  QueryIsEmpty :: "'db introspection"
  guardDescription :: "'db Guard \<Rightarrow> string"
  summary :: "'db Invocable \<Rightarrow> string"

text \<open>
  Modelled from the spec: the calls \<^verbatim>\<open>reporter.Error\<close>, \<^verbatim>\<open>reporter.Skipf\<close> and
  \<^verbatim>\<open>reporter.Applyf\<close> of section 4.2, on the Logger of the code.
\<close>

definition reportError :: "Migration \<Rightarrow> error \<Rightarrow> 'db Run \<Rightarrow> 'db Run" where
  "reportError m err r =
     (case Logger_Error (reporter r) m err (reported r) of
        (returned, l, lines) \<Rightarrow> r\<lparr>reporter := l, reported := lines\<rparr>)"

definition reportSkipf :: "Migration \<Rightarrow> string \<Rightarrow> 'db Run \<Rightarrow> 'db Run" where
  "reportSkipf m body r =
     (case Logger_Skipf (reporter r) m body (reported r) of
        (returned, l, lines) \<Rightarrow> r\<lparr>reporter := l, reported := lines\<rparr>)"

definition reportApplyf :: "Migration \<Rightarrow> string \<Rightarrow> 'db Run \<Rightarrow> 'db Run" where
  "reportApplyf m body r =
     (case Logger_Applyf (reporter r) m body (reported r) of
        (returned, l, lines) \<Rightarrow> r\<lparr>reporter := l, reported := lines\<rparr>)"

text \<open>
  Modelled from the spec: \<^verbatim>\<open>Step.Apply\<close>, the pseudo-code of section 4.2 line by line.
  \<open>step\<close> is the Step as the Reporter sees it, \<open>at\<close> its position.
\<close>

definition Step_Apply ::
  "'db Env \<Rightarrow> 'db Guard \<Rightarrow> 'db Invocable \<Rightarrow> Migration \<Rightarrow> nat list \<Rightarrow> Tx \<Rightarrow> 'db Run
     \<Rightarrow> error option \<times> 'db Run" where
  "Step_Apply env guard invocable step at tx r =
     (let r1 = r\<lparr>trace := trace r @ [GuardEvaluated at]\<rparr> in
      case Evaluate (QueryIsEmpty env) guard (database (conn r1)) tx of
        Inl err \<Rightarrow> (Some err, reportError step err r1)
      | Inr False \<Rightarrow> (None, reportSkipf step (guardDescription env guard) r1)
      | Inr True \<Rightarrow>
          (let r2 = r1\<lparr>trace := trace r1 @ [InvocableInvoked at]\<rparr> in
           case Invoke (Execute env) invocable (conn r2) tx of
             (Some err, c) \<Rightarrow> (Some err, reportError step err (r2\<lparr>conn := c\<rparr>))
           | (None, c) \<Rightarrow> (None, reportApplyf step (summary env invocable) (r2\<lparr>conn := c\<rparr>))))"

text \<open>Modelled from the spec: the events that mark where the Apply of a node begins and ends.\<close>

definition started :: "nat list \<Rightarrow> 'db Run \<Rightarrow> 'db Run" where
  "started at r = r\<lparr>trace := trace r @ [ApplyBegin at]\<rparr>"

definition finished :: "nat list \<Rightarrow> error option \<times> 'db Run \<Rightarrow> error option \<times> 'db Run" where
  "finished at outcome =
     (case outcome of (err, r) \<Rightarrow> (err, r\<lparr>trace := trace r @ [ApplyEnd at err]\<rparr>))"

text \<open>
  Modelled from the spec: \<^verbatim>\<open>Apply\<close> of a Migration, and \<^verbatim>\<open>Group.Apply\<close> of section 4.3.
  \<open>Group_children\<close> is the iteration over the children in declared order: \<open>i\<close> is
  the index of the next child, \<open>first\<close> the first error met so far. On a child's
  failure the Group returns that error at once when \<open>shouldAbortOnError\<close> is set,
  and otherwise goes on and returns the first error at the end.
\<close>

fun Apply ::
  "'db Env \<Rightarrow> 'db MigrationNode \<Rightarrow> Migration option \<Rightarrow> nat list \<Rightarrow> Tx \<Rightarrow> 'db Run
     \<Rightarrow> error option \<times> 'db Run"
and Group_children ::
  "'db Env \<Rightarrow> 'db MigrationNode list \<Rightarrow> bool \<Rightarrow> Migration option \<Rightarrow> nat list \<Rightarrow> nat \<Rightarrow> Tx
     \<Rightarrow> error option \<Rightarrow> 'db Run \<Rightarrow> error option \<times> 'db Run"
where
  "Apply env (Step guard invocable label) parent at tx r =
     finished at (Step_Apply env guard invocable (Migration label parent) at tx (started at r))"
| "Apply env (Group children label shouldAbortOnError) parent at tx r =
     finished at
       (Group_children env children shouldAbortOnError (Some (Migration label parent)) at 0 tx None
          (started at r))"
| "Group_children env [] abort self at i tx first r = (first, r)"
| "Group_children env (child # rest) abort self at i tx first r =
     (case Apply env child self (at @ [i]) tx r of
        (None, r') \<Rightarrow> Group_children env rest abort self at (Suc i) tx first r'
      | (Some err, r') \<Rightarrow>
          if abort then (Some err, r')
          else Group_children env rest abort self at (Suc i) tx
                 (case first of None \<Rightarrow> Some err | Some earlier \<Rightarrow> Some earlier) r')"

subsection \<open>Idempotence: the notions of the property\<close>

text \<open>
  The Steps of a tree, as pairs of guard and invocable, in order; their number is the
  \<open>N\<close> of the idempotence property.
\<close>

fun stepsOf :: "'db MigrationNode \<Rightarrow> ('db Guard \<times> 'db Invocable) list" where
  "stepsOf (Step guard invocable label) = [(guard, invocable)]"
| "stepsOf (Group children label shouldAbortOnError) = concat (map stepsOf children)"

definition countSteps :: "'db MigrationNode \<Rightarrow> nat" where
  "countSteps node = length (stepsOf node)"

text \<open>
  A guard is \<open>satisfied\<close> on a connection when it evaluates, without error, to
  "do not apply": the desired state already holds.
\<close>

definition satisfied :: "'db Env \<Rightarrow> Tx \<Rightarrow> 'db Guard \<Rightarrow> 'db Connection \<Rightarrow> bool" where
  "satisfied env tx guard c = (Evaluate (QueryIsEmpty env) guard (database c) tx = Inr False)"

text \<open>
  The hypothesis of the idempotence property as the specification words it: every
  Step's guard reflects the post-condition of its own invocable, that is, the guard is
  satisfied wherever the invocable has just succeeded.
\<close>

definition reflectsPostconditions :: "'db Env \<Rightarrow> Tx \<Rightarrow> 'db MigrationNode \<Rightarrow> bool" where
  "reflectsPostconditions env tx node =
     (\<forall>(guard, invocable)\<in>set (stepsOf node). \<forall>c c'.
        Invoke (Execute env) invocable c tx = (None, c') \<longrightarrow> satisfied env tx guard c')"

text \<open>
  No Step undoes another: a guard of the tree that is satisfied stays satisfied when
  an invocable of the tree succeeds.
\<close>

definition undisturbed :: "'db Env \<Rightarrow> Tx \<Rightarrow> 'db MigrationNode \<Rightarrow> bool" where
  "undisturbed env tx node =
     (\<forall>(guard, invocable)\<in>set (stepsOf node). \<forall>(guard', invocable')\<in>set (stepsOf node). \<forall>c c'.
        satisfied env tx guard c \<and> Invoke (Execute env) invocable' c tx = (None, c')
          \<longrightarrow> satisfied env tx guard c')"

section \<open>Concrete values for the examples\<close>

text \<open>
  A writer that is no \<^verbatim>\<open>TextFormatter\<close> (its colouring is the identity), a Logger
  without output, a Logger that writes through the plain writer, and a small
  ancestry: a step in an unlabelled group in the group \<open>inner\<close> in the group \<open>root\<close>.
\<close>

definition plainAgent :: Agent where
  "plainAgent = \<lparr>Colorize = (\<lambda>s color. s)\<rparr>"

definition quietLogger :: Logger where
  "quietLogger = \<lparr>Output = None, Phase = ''apply'', Result = [], applied = 0, skipped = 0, failed = 0\<rparr>"

definition plainLogger :: Logger where
  "plainLogger = \<lparr>Output = Some plainAgent, Phase = ''apply'', Result = [], applied = 0, skipped = 0, failed = 0\<rparr>"

definition rootGroup :: Migration where
  "rootGroup = Migration ''root'' None"

definition innerGroup :: Migration where
  "innerGroup = Migration ''inner'' (Some (Migration [] (Some rootGroup)))"

definition leafStep :: Migration where
  "leafStep = Migration ''leaf'' (Some innerGroup)"



text \<open>
  A database that is the list of its tables: a statement creates the table it names,
  the catalog answers table queries and refuses role queries.
\<close>

definition toyCatalog :: "string list introspection" where
  "toyCatalog query tx tables =
     (case query of
        TableQuery name \<Rightarrow> Inr (name \<notin> set tables)
      | RoleQuery name \<Rightarrow> Inl (NewError ''permission denied'')
      | _ \<Rightarrow> Inr True)"

definition toyDriver :: "string list driver" where
  "toyDriver statement cacheLabel tx tables =
     (if statement = ''BAD'' then (Some (NewError ''syntax error''), tables)
      else (None, tables @ [statement]))"

definition toyEnv :: "string list Env" where
  "toyEnv = \<lparr>Execute = toyDriver, QueryIsEmpty = toyCatalog,
     guardDescription = (\<lambda>g. ''guard''), summary = (\<lambda>i. ''done'')\<rparr>"

definition freshRun :: "string list Run" where
  "freshRun = \<lparr>conn = \<lparr>executed = [], database = []\<rparr>, reporter = Some plainLogger,
     reported = [], trace = []\<rparr>"

text \<open>
  A run with no Reporter configured, and a Group of three steps on the toy database
  whose second step fails.
\<close>

definition quietRun :: "string list Run" where
  "quietRun = \<lparr>conn = \<lparr>executed = [], database = []\<rparr>, reporter = None, reported = [], trace = []\<rparr>"

definition stepA :: "string list MigrationNode" where
  "stepA = Step (TableNotExists ''a'') (Statements [''a'']) ''A''"

definition stepB :: "string list MigrationNode" where
  "stepB = Step (TableNotExists ''b'') (Statements [''BAD'']) ''B''"

definition stepC :: "string list MigrationNode" where
  "stepC = Step (TableNotExists ''c'') (Statements [''c'']) ''C''"

text \<open>
  Two trees on the toy database. \<open>createBoth\<close> creates the tables \<open>a\<close> and \<open>c\<close> where
  they are missing. \<open>dropThenCreate\<close> has the shape of the repository's example
  program: drop the table \<open>t\<close> if it exists, then create it if it does not.
\<close>

definition createBoth :: "string list MigrationNode" where
  "createBoth = Group [stepA, stepC] ''root'' True"

definition dropTable :: "string \<Rightarrow> string list Connection \<Rightarrow> Tx \<Rightarrow> error option \<times> string list Connection" where
  "dropTable name c tx = (None, c\<lparr>database := removeAll name (database c)\<rparr>)"

definition createTable :: "string \<Rightarrow> string list Connection \<Rightarrow> Tx \<Rightarrow> error option \<times> string list Connection" where
  "createTable name c tx = (None, c\<lparr>database := database c @ [name]\<rparr>)"

definition dropThenCreate :: "string list MigrationNode" where
  "dropThenCreate = Group
     [Step (TableExists ''t'') (Body (dropTable ''t'')) ''drop'',
      Step (TableNotExists ''t'') (Body (createTable ''t'')) ''create''] ''root'' True"

definition countingRun :: "string list Run" where
  "countingRun = \<lparr>conn = \<lparr>executed = [], database = []\<rparr>, reporter = Some quietLogger,
     reported = [], trace = []\<rparr>"

section \<open>Properties of the Logger\<close>

text \<open>
  C10. The three recording operations are safe on a nil receiver: \<^verbatim>\<open>Applyf\<close> and
  \<^verbatim>\<open>Skipf\<close> return nil and \<^verbatim>\<open>Error\<close> returns the error it was given; there is still
  no Logger afterwards (no counter was touched) and the sink is the one before
  (nothing was emitted).
\<close>

theorem nil_receiver_safe:
  "Logger_Applyf None m body sink = (None, None, sink)
   \<and> Logger_Skipf None m body sink = (None, None, sink)
   \<and> Logger_Error None m err sink = (Some err, None, sink)"
  by (simp add: Logger_Applyf_def Logger_Skipf_def Logger_Error_def)


text \<open>
  C6, as the claim states it, fails where the Logger has no output: \<^verbatim>\<open>write\<close> returns
  at once when \<open>Output\<close> is nil, so the three operations count but emit no line. Here
  the sink, empty before, is still empty after each of them.
\<close>

theorem quiet_logger_emits_nothing:
  "snd (snd (Logger_Applyf (Some quietLogger) rootGroup ''created'' [])) = []
   \<and> snd (snd (Logger_Skipf (Some quietLogger) rootGroup ''exists'' [])) = []
   \<and> snd (snd (Logger_Error (Some quietLogger) rootGroup (NewError ''boom'') [])) = []"
  by (simp add: Logger_Applyf_def Logger_Skipf_def Logger_Error_def Logger_write_def Let_def
      quietLogger_def)

text \<open>
  C6, amended. On a Logger each recording operation adds one to its own counter (in
  the 64-bit arithmetic of the counters), leaves the other two as they were and sets
  \<open>Result\<close> to its own word; it appends exactly one line to the sink when the Logger
  has an output, and none when \<open>Output\<close> is nil. What was in the sink stays.
\<close>

theorem recording_operations:
  "(\<exists>l' emitted.
      Logger_Applyf (Some l) m body sink = (None, Some l', sink @ emitted)
      \<and> applied l' = applied l + 1 \<and> skipped l' = skipped l \<and> failed l' = failed l
      \<and> Result l' = ''applied''
      \<and> length emitted = (if Output l = None then 0 else 1))
   \<and> (\<exists>l' emitted.
      Logger_Skipf (Some l) m body sink = (None, Some l', sink @ emitted)
      \<and> applied l' = applied l \<and> skipped l' = skipped l + 1 \<and> failed l' = failed l
      \<and> Result l' = ''skipped''
      \<and> length emitted = (if Output l = None then 0 else 1))
   \<and> (\<exists>l' emitted.
      Logger_Error (Some l) m err sink = (Some err, Some l', sink @ emitted)
      \<and> applied l' = applied l \<and> skipped l' = skipped l \<and> failed l' = failed l + 1
      \<and> Result l' = ''failed''
      \<and> length emitted = (if Output l = None then 0 else 1))"
  by (cases "Output l")
     (simp_all add: Logger_Applyf_def Logger_Skipf_def Logger_Error_def Logger_write_def Let_def)

text \<open>
  The amended C6 at a Logger with an output: one line, with the phase, the result, the
  breadcrumb and the message.
\<close>

theorem recording_operations_witness:
  "Logger_Applyf (Some plainLogger) leafStep ''created'' [] =
     (None, Some (plainLogger\<lparr>applied := 1, Result := ''applied''\<rparr>),
      [''apply -- applied > root > inner -- created''])"
  using recording_operations [of plainLogger leafStep "''created''" "[]"]
  by (simp add: Logger_Applyf_def Logger_write_def write_buffer_def Let_def plainLogger_def
      plainAgent_def leafStep_def innerGroup_def rootGroup_def renderStack_def TrimPrefix_def
      stackSeparator_def Logger_colorize_def colorizeFixedWidthLeftAligned_def
      SprintfLeftAligned_def RuneCountInString_def)

section \<open>The breadcrumb\<close>

lemma prefixed_Join:
  "ls \<noteq> [] \<Longrightarrow> concat (map (\<lambda>l. sep @ l) ls) = sep @ Join ls sep"
  by (induction ls sep rule: Join.induct) auto

lemma renderStack_loop_concat:
  "renderStack_loop sep p acc =
     concat (map (\<lambda>l. sep @ l) (rev (filter (\<lambda>label. label \<noteq> []) (map Label (ancestorsFrom p))))) @ acc"
  by (induction sep p acc rule: renderStack_loop.induct) auto

text \<open>
  C8, as the claim states it, fails: the rendered breadcrumb is not the labels joined
  with the separator. For a step under \<open>inner\<close> under \<open>root\<close> the code renders
  \<open>> root > inner\<close>, the join is \<open>root > inner\<close>.
\<close>

theorem breadcrumb_is_not_the_join:
  "renderStack plainAgent leafStep ColorRed = ''> root > inner''
   \<and> breadcrumb_joined plainAgent leafStep = ''root > inner''
   \<and> renderStack plainAgent leafStep ColorRed \<noteq> breadcrumb_joined plainAgent leafStep"
  by (simp add: renderStack_def TrimPrefix_def stackSeparator_def Logger_colorize_def
      plainAgent_def leafStep_def innerGroup_def rootGroup_def breadcrumb_joined_def
      breadcrumbLabels_def ancestors_def)

text \<open>
  C8, amended. The breadcrumb is made from the labels of the ancestors only (the
  reporting node's own label is not among them), without the empty ones, root first.
  Every label is preceded by the separator, also the first one, and the one leading
  space is trimmed: when there is a label, the breadcrumb is the coloured \<open>>\<close>, a
  space, and the labels joined with the separator. With no labelled ancestor, so
  also with no parent, it is empty.
\<close>

theorem breadcrumb_rendering:
  "renderStack out m color =
     (if breadcrumbLabels m = [] then []
      else Logger_colorize out ''>'' ColorLightBlack @ '' ''
           @ Join (breadcrumbLabels m) (stackSeparator out))
   \<and> renderStack out (Migration label None) color = []"
proof
  show "renderStack out m color =
     (if breadcrumbLabels m = [] then []
      else Logger_colorize out ''>'' ColorLightBlack @ '' ''
           @ Join (breadcrumbLabels m) (stackSeparator out))"
  proof (cases "breadcrumbLabels m = []")
    case True
    then show ?thesis
      by (simp add: renderStack_def renderStack_loop_concat breadcrumbLabels_def ancestors_def
          TrimPrefix_def)
  next
    case False
    then have "renderStack_loop (stackSeparator out) (Parent m) [] =
        stackSeparator out @ Join (breadcrumbLabels m) (stackSeparator out)"
      using prefixed_Join [of "breadcrumbLabels m" "stackSeparator out"]
      by (simp add: renderStack_loop_concat breadcrumbLabels_def ancestors_def)
    then show ?thesis using False
      by (simp add: renderStack_def TrimPrefix_def stackSeparator_def)
  qed
  show "renderStack out (Migration label None) color = []"
    by (simp add: renderStack_def TrimPrefix_def)
qed

text \<open>The amended C8 at the step under \<open>inner\<close> under an unlabelled group under \<open>root\<close>.\<close>

theorem breadcrumb_rendering_witness:
  "breadcrumbLabels leafStep = [''root'', ''inner'']
   \<and> renderStack plainAgent leafStep ColorRed = ''> '' @ Join [''root'', ''inner''] '' > ''
   \<and> renderStack plainAgent rootGroup ColorRed = []"
  using breadcrumb_rendering [of plainAgent leafStep ColorRed "''root''"]
  by (simp add: breadcrumbLabels_def ancestors_def leafStep_def innerGroup_def rootGroup_def
      stackSeparator_def Logger_colorize_def plainAgent_def renderStack_def TrimPrefix_def)

section \<open>The Statements invocable\<close>







section \<open>Guards\<close>

text \<open>
  C5. For each of the five pairs of existence guards and every database state (and
  transaction), \<open>Evaluate\<close> does not return \<open>shouldApply = true\<close> for both members
  of the pair: both read the same query, one takes "row found" and the other "zero
  rows".
\<close>

theorem guard_inversion:
  "\<not> (Evaluate q (TableExists name) d tx = Inr True \<and> Evaluate q (TableNotExists name) d tx = Inr True)
   \<and> \<not> (Evaluate q (ColumnExists table column) d tx = Inr True
        \<and> Evaluate q (ColumnNotExists table column) d tx = Inr True)
   \<and> \<not> (Evaluate q (ConstraintExists name) d tx = Inr True
        \<and> Evaluate q (ConstraintNotExists name) d tx = Inr True)
   \<and> \<not> (Evaluate q (IndexExists table name) d tx = Inr True
        \<and> Evaluate q (IndexNotExists table name) d tx = Inr True)
   \<and> \<not> (Evaluate q (RoleExists name) d tx = Inr True \<and> Evaluate q (RoleNotExists name) d tx = Inr True)"
  by (simp add: rowFound_def split: sum.splits)

section \<open>Step.Apply\<close>

lemma report_frame [simp]:
  "trace (reportError m err r) = trace r" "conn (reportError m err r) = conn r"
  "trace (reportSkipf m body r) = trace r" "conn (reportSkipf m body r) = conn r"
  "trace (reportApplyf m body r) = trace r" "conn (reportApplyf m body r) = conn r"
  by (simp_all add: reportError_def reportSkipf_def reportApplyf_def split: prod.splits)

lemma Step_Apply_guard_error:
  "Evaluate (QueryIsEmpty env) guard (database (conn r)) tx = Inl err \<Longrightarrow>
     Step_Apply env guard invocable step at tx r =
       (Some err, reportError step err (r\<lparr>trace := trace r @ [GuardEvaluated at]\<rparr>))"
  by (simp add: Step_Apply_def Let_def)

lemma Step_Apply_guard_false:
  "Evaluate (QueryIsEmpty env) guard (database (conn r)) tx = Inr False \<Longrightarrow>
     Step_Apply env guard invocable step at tx r =
       (None, reportSkipf step (guardDescription env guard) (r\<lparr>trace := trace r @ [GuardEvaluated at]\<rparr>))"
  by (simp add: Step_Apply_def Let_def)

lemma Step_Apply_guard_true:
  "Evaluate (QueryIsEmpty env) guard (database (conn r)) tx = Inr True \<Longrightarrow>
     Invoke (Execute env) invocable (conn r) tx = (res, c) \<Longrightarrow>
     Step_Apply env guard invocable step at tx r =
       (res, (case res of
                Some e \<Rightarrow> reportError step e
              | None \<Rightarrow> reportApplyf step (summary env invocable))
             (r\<lparr>trace := trace r @ [GuardEvaluated at, InvocableInvoked at], conn := c\<rparr>))"
  by (cases res) (simp_all add: Step_Apply_def Let_def)

lemma report_reporter:
  "(reporter (reportError m err r), reported (reportError m err r)) =
      snd (Logger_Error (reporter r) m err (reported r))"
  "(reporter (reportSkipf m body r), reported (reportSkipf m body r)) =
      snd (Logger_Skipf (reporter r) m body (reported r))"
  "(reporter (reportApplyf m body r), reported (reportApplyf m body r)) =
      snd (Logger_Applyf (reporter r) m body (reported r))"
  by (simp_all add: reportError_def reportSkipf_def reportApplyf_def split: prod.splits)

text \<open>
  C1. \<^verbatim>\<open>Step.Apply\<close> evaluates the guard first. When the guard returns an error, that
  error is returned and reported through \<^verbatim>\<open>Error\<close>; the only event is the guard's
  evaluation and the connection is untouched, so the invocable was not invoked. When
  the guard returns false, the Step is reported through \<^verbatim>\<open>Skipf\<close>, the invocable is
  not invoked and nil is returned. Only when the guard returns true is the invocable
  invoked; what it returns is what Apply returns, reported through \<^verbatim>\<open>Error\<close> when it
  is an error and through \<^verbatim>\<open>Applyf\<close> otherwise.
\<close>

theorem step_apply_outcomes:
  assumes "Step_Apply env guard invocable step at tx r = (result, r')"
  shows "(Evaluate (QueryIsEmpty env) guard (database (conn r)) tx = Inl err \<longrightarrow>
            result = Some err \<and> conn r' = conn r \<and> trace r' = trace r @ [GuardEvaluated at]
            \<and> (reporter r', reported r') = snd (Logger_Error (reporter r) step err (reported r)))
       \<and> (Evaluate (QueryIsEmpty env) guard (database (conn r)) tx = Inr False \<longrightarrow>
            result = None \<and> conn r' = conn r \<and> trace r' = trace r @ [GuardEvaluated at]
            \<and> (reporter r', reported r') =
                snd (Logger_Skipf (reporter r) step (guardDescription env guard) (reported r)))
       \<and> (Evaluate (QueryIsEmpty env) guard (database (conn r)) tx = Inr True \<longrightarrow>
            trace r' = trace r @ [GuardEvaluated at, InvocableInvoked at]
            \<and> (result, conn r') = Invoke (Execute env) invocable (conn r) tx
            \<and> (reporter r', reported r') =
                (case result of
                   Some e \<Rightarrow> snd (Logger_Error (reporter r) step e (reported r))
                 | None \<Rightarrow> snd (Logger_Applyf (reporter r) step (summary env invocable) (reported r))))"
proof (intro conjI impI)
  assume g: "Evaluate (QueryIsEmpty env) guard (database (conn r)) tx = Inl err"
  from Step_Apply_guard_error [OF g, of invocable step at] assms
  have r': "result = Some err" "r' = reportError step err (r\<lparr>trace := trace r @ [GuardEvaluated at]\<rparr>)"
    by simp_all
  show "result = Some err" by (rule r'(1))
  show "conn r' = conn r" "trace r' = trace r @ [GuardEvaluated at]" by (simp_all add: r'(2))
  show "(reporter r', reported r') = snd (Logger_Error (reporter r) step err (reported r))"
    unfolding r'(2) report_reporter by simp
next
  assume g: "Evaluate (QueryIsEmpty env) guard (database (conn r)) tx = Inr False"
  from Step_Apply_guard_false [OF g, of invocable step at] assms
  have r': "result = None"
    "r' = reportSkipf step (guardDescription env guard) (r\<lparr>trace := trace r @ [GuardEvaluated at]\<rparr>)"
    by simp_all
  show "result = None" by (rule r'(1))
  show "conn r' = conn r" "trace r' = trace r @ [GuardEvaluated at]" by (simp_all add: r'(2))
  show "(reporter r', reported r') =
      snd (Logger_Skipf (reporter r) step (guardDescription env guard) (reported r))"
    unfolding r'(2) report_reporter by simp
next
  assume g: "Evaluate (QueryIsEmpty env) guard (database (conn r)) tx = Inr True"
  obtain res c where inv: "Invoke (Execute env) invocable (conn r) tx = (res, c)"
    by (cases "Invoke (Execute env) invocable (conn r) tx")
  let ?r2 = "r\<lparr>trace := trace r @ [GuardEvaluated at, InvocableInvoked at], conn := c\<rparr>"
  from Step_Apply_guard_true [OF g inv, of step at] assms
  have r': "result = res"
    "r' = (case res of Some e \<Rightarrow> reportError step e | None \<Rightarrow> reportApplyf step (summary env invocable)) ?r2"
    by simp_all
  show "trace r' = trace r @ [GuardEvaluated at, InvocableInvoked at]"
    by (cases res) (simp_all add: r'(2))
  show "(result, conn r') = Invoke (Execute env) invocable (conn r) tx"
    by (cases res) (simp_all add: r' inv)
  show "(reporter r', reported r') =
      (case result of
         Some e \<Rightarrow> snd (Logger_Error (reporter r) step e (reported r))
       | None \<Rightarrow> snd (Logger_Applyf (reporter r) step (summary env invocable) (reported r)))"
  proof (cases res)
    case None
    then show ?thesis unfolding r' using report_reporter(3) [of step "summary env invocable" ?r2]
      by simp
  next
    case (Some e)
    then show ?thesis unfolding r' using report_reporter(1) [of step e ?r2] by simp
  qed
qed

text \<open>
  C1 on three steps: a guard that fails (the catalog refuses role queries), a guard
  that is false (no table \<open>t\<close> to drop), and a guard that is true with a failing
  statement.
\<close>

theorem step_apply_outcomes_witness:
  "Step_Apply toyEnv (RoleExists ''admin'') (Statements [''x'']) rootGroup [0] None freshRun =
     (Some (NewError ''permission denied''),
      freshRun\<lparr>reporter := Some (plainLogger\<lparr>failed := 1, Result := ''failed''\<rparr>),
        reported := [''apply -- failed -- permission denied''], trace := [GuardEvaluated [0]]\<rparr>)
   \<and> Step_Apply toyEnv (TableExists ''t'') (Statements [''x'']) rootGroup [0] None freshRun =
     (None,
      freshRun\<lparr>reporter := Some (plainLogger\<lparr>skipped := 1, Result := ''skipped''\<rparr>),
        reported := [''apply -- skipped -- guard''], trace := [GuardEvaluated [0]]\<rparr>)
   \<and> Step_Apply toyEnv (TableNotExists ''t'') (Statements [''BAD'']) rootGroup [0] None freshRun =
     (Some (NewError ''syntax error''),
      freshRun\<lparr>conn := \<lparr>executed = [(''BAD'', None)], database = []\<rparr>,
        reporter := Some (plainLogger\<lparr>failed := 1, Result := ''failed''\<rparr>),
        reported := [''apply -- failed -- syntax error''],
        trace := [GuardEvaluated [0], InvocableInvoked [0]]\<rparr>)"
  using step_apply_outcomes [of toyEnv "RoleExists ''admin''" "Statements [''x'']" rootGroup "[0]" None
      freshRun "fst (Step_Apply toyEnv (RoleExists ''admin'') (Statements [''x'']) rootGroup [0] None freshRun)"
      "snd (Step_Apply toyEnv (RoleExists ''admin'') (Statements [''x'']) rootGroup [0] None freshRun)"
      "NewError ''permission denied''"]
    step_apply_outcomes [of toyEnv "TableExists ''t''" "Statements [''x'']" rootGroup "[0]" None
      freshRun "fst (Step_Apply toyEnv (TableExists ''t'') (Statements [''x'']) rootGroup [0] None freshRun)"
      "snd (Step_Apply toyEnv (TableExists ''t'') (Statements [''x'']) rootGroup [0] None freshRun)"
      "NewError ''permission denied''"]
    step_apply_outcomes [of toyEnv "TableNotExists ''t''" "Statements [''BAD'']" rootGroup "[0]" None
      freshRun "fst (Step_Apply toyEnv (TableNotExists ''t'') (Statements [''BAD'']) rootGroup [0] None freshRun)"
      "snd (Step_Apply toyEnv (TableNotExists ''t'') (Statements [''BAD'']) rootGroup [0] None freshRun)"
      "NewError ''permission denied''"]
  by (simp add: Step_Apply_def Let_def toyEnv_def toyCatalog_def toyDriver_def rowFound_def freshRun_def
      reportError_def reportSkipf_def Logger_Error_def Logger_Skipf_def Logger_write_def
      write_buffer_def plainLogger_def plainAgent_def rootGroup_def renderStack_def TrimPrefix_def
      stackSeparator_def Logger_colorize_def colorizeFixedWidthLeftAligned_def
      SprintfLeftAligned_def RuneCountInString_def ExecInTx_def ExecInTxWithCacheLabel_def)

section \<open>Group.Apply\<close>




lemma under_self: "position ev = at \<Longrightarrow> under at ev"
  by (simp add: under_def)








lemma first_error_kept:
  "Group_children env cs abort self at i tx (Some e) r = (err, r') \<Longrightarrow> err \<noteq> None"
proof (induction cs arbitrary: i r e)
  case Nil
  then show ?case by auto
next
  case (Cons c cs)
  obtain e1 r1 where ap: "Apply env c self (at @ [i]) tx r = (e1, r1)"
    by (cases "Apply env c self (at @ [i]) tx r")
  show ?case
  proof (cases e1)
    case None
    with Cons.prems ap have "Group_children env cs abort self at (Suc i) tx (Some e) r1 = (err, r')"
      by simp
    from Cons.IH [OF this] show ?thesis .
  next
    case (Some e')
    show ?thesis
    proof (cases abort)
      case True
      with Cons.prems ap Some show ?thesis by auto
    next
      case False
      with Cons.prems ap Some
      have "Group_children env cs abort self at (Suc i) tx (Some e) r1 = (err, r')" by simp
      from Cons.IH [OF this] show ?thesis .
    qed
  qed
qed


lemma children_success_step:
  assumes "Group_children env (c # cs) abort self at i tx first r = (None, r')"
  obtains r1 where "Apply env c self (at @ [i]) tx r = (None, r1)"
    and "Group_children env cs abort self at (Suc i) tx first r1 = (None, r')"
proof -
  obtain e1 r1 where ap: "Apply env c self (at @ [i]) tx r = (e1, r1)"
    by (cases "Apply env c self (at @ [i]) tx r")
  have "e1 = None"
  proof (rule ccontr)
    assume "e1 \<noteq> None"
    then obtain e where e: "e1 = Some e" by auto
    show False
    proof (cases abort)
      case True
      with assms ap e show False by simp
    next
      case False
      with assms ap e obtain f where
        "Group_children env cs abort self at (Suc i) tx (Some f) r1 = (None, r')"
        by (cases first) auto
      from first_error_kept [OF this] show False by simp
    qed
  qed
  with assms ap that show thesis by simp
qed






lemmas toy_defs = stepA_def stepB_def stepC_def quietRun_def toyEnv_def toyCatalog_def toyDriver_def
      Step_Apply_def Let_def started_def finished_def reportError_def reportApplyf_def reportSkipf_def
      Logger_Error_def Logger_Applyf_def Logger_Skipf_def ExecInTx_def ExecInTxWithCacheLabel_def




section \<open>Idempotence\<close>

lemma Step_Apply_success:
  assumes "Step_Apply env guard invocable step at tx r = (None, r')"
  shows "(satisfied env tx guard (conn r) \<and> conn r' = conn r)
       \<or> Invoke (Execute env) invocable (conn r) tx = (None, conn r')"
proof (cases "Evaluate (QueryIsEmpty env) guard (database (conn r)) tx")
  case (Inl e)
  from Step_Apply_guard_error [OF Inl, of invocable step at] assms show ?thesis by simp
next
  case (Inr b)
  show ?thesis
  proof (cases b)
    case False
    with Inr have g: "Evaluate (QueryIsEmpty env) guard (database (conn r)) tx = Inr False" by simp
    from Step_Apply_guard_false [OF g, of invocable step at] assms
    have "conn r' = conn r" by auto
    with g show ?thesis by (simp add: satisfied_def)
  next
    case True
    with Inr have g: "Evaluate (QueryIsEmpty env) guard (database (conn r)) tx = Inr True" by simp
    obtain res c where inv: "Invoke (Execute env) invocable (conn r) tx = (res, c)"
      by (cases "Invoke (Execute env) invocable (conn r) tx")
    from Step_Apply_guard_true [OF g inv, of step at] assms
    have "res = None" and "conn r' = c" by auto
    with inv show ?thesis by simp
  qed
qed

lemma Apply_Step_success:
  assumes "Apply env (Step guard invocable label) parent at tx r = (None, r')"
  shows "(satisfied env tx guard (conn r) \<and> conn r' = conn r)
       \<or> Invoke (Execute env) invocable (conn r) tx = (None, conn r')"
proof -
  obtain e1 r1 where st: "Step_Apply env guard invocable (Migration label parent) at tx (started at r) = (e1, r1)"
    by (cases "Step_Apply env guard invocable (Migration label parent) at tx (started at r)")
  with assms have "e1 = None" "conn r' = conn r1" by (auto simp: finished_def)
  with Step_Apply_success [of env guard invocable "Migration label parent" at tx "started at r" r1] st
  show ?thesis by (simp add: started_def)
qed

lemma children_settle:
  assumes each: "\<forall>c\<in>set cs. \<forall>parent at r r'. Apply env c parent at tx r = (None, r') \<longrightarrow>
      (\<forall>g\<in>G. satisfied env tx g (conn r) \<longrightarrow> satisfied env tx g (conn r'))
      \<and> (\<forall>p\<in>set (stepsOf c). satisfied env tx (fst p) (conn r'))"
    and inG: "\<forall>c\<in>set cs. \<forall>p\<in>set (stepsOf c). fst p \<in> G"
  shows "Group_children env cs abort self at i tx first r = (None, r') \<Longrightarrow>
      (\<forall>g\<in>G. satisfied env tx g (conn r) \<longrightarrow> satisfied env tx g (conn r'))
      \<and> (\<forall>c\<in>set cs. \<forall>p\<in>set (stepsOf c). satisfied env tx (fst p) (conn r'))"
  using each inG
proof (induction cs arbitrary: i r)
  case Nil
  then show ?case by simp
next
  case (Cons c cs)
  from Cons.prems(1) obtain r1 where ap: "Apply env c self (at @ [i]) tx r = (None, r1)"
    and rest: "Group_children env cs abort self at (Suc i) tx first r1 = (None, r')"
    by (rule children_success_step)
  from Cons.prems(2) ap
  have keep1: "\<forall>g\<in>G. satisfied env tx g (conn r) \<longrightarrow> satisfied env tx g (conn r1)"
    and done1: "\<forall>p\<in>set (stepsOf c). satisfied env tx (fst p) (conn r1)" by simp_all
  have each': "\<forall>c\<in>set cs. \<forall>parent at r r'. Apply env c parent at tx r = (None, r') \<longrightarrow>
      (\<forall>g\<in>G. satisfied env tx g (conn r) \<longrightarrow> satisfied env tx g (conn r'))
      \<and> (\<forall>p\<in>set (stepsOf c). satisfied env tx (fst p) (conn r'))"
    using Cons.prems(2) by simp
  have inG': "\<forall>c\<in>set cs. \<forall>p\<in>set (stepsOf c). fst p \<in> G" using Cons.prems(3) by simp
  from Cons.IH [OF rest each' inG']
  have keep2: "\<forall>g\<in>G. satisfied env tx g (conn r1) \<longrightarrow> satisfied env tx g (conn r')"
    and done2: "\<forall>c\<in>set cs. \<forall>p\<in>set (stepsOf c). satisfied env tx (fst p) (conn r')" by simp_all
  have "\<forall>p\<in>set (stepsOf c). satisfied env tx (fst p) (conn r')"
  proof
    fix p assume p: "p \<in> set (stepsOf c)"
    with Cons.prems(3) have "fst p \<in> G" by simp
    with done1 p keep2 show "satisfied env tx (fst p) (conn r')" by blast
  qed
  with keep1 keep2 done2 show ?case by simp
qed

lemma Apply_settles:
  assumes stable: "\<forall>g\<in>G. \<forall>inv\<in>I. \<forall>c c'. satisfied env tx g c
      \<and> Invoke (Execute env) inv c tx = (None, c') \<longrightarrow> satisfied env tx g c'"
  shows "(\<forall>p\<in>set (stepsOf node). fst p \<in> G \<and> snd p \<in> I
            \<and> (\<forall>c c'. Invoke (Execute env) (snd p) c tx = (None, c') \<longrightarrow> satisfied env tx (fst p) c')) \<Longrightarrow>
     Apply env node parent at tx r = (None, r') \<Longrightarrow>
      (\<forall>g\<in>G. satisfied env tx g (conn r) \<longrightarrow> satisfied env tx g (conn r'))
      \<and> (\<forall>p\<in>set (stepsOf node). satisfied env tx (fst p) (conn r'))"
proof (induction node arbitrary: parent at r r')
  case (Step guard invocable label)
  from Step.prems(1) have g: "guard \<in> G" and i: "invocable \<in> I"
    and post: "\<forall>c c'. Invoke (Execute env) invocable c tx = (None, c') \<longrightarrow> satisfied env tx guard c'"
    by simp_all
  from Apply_Step_success [OF Step.prems(2)] show ?case
  proof
    assume "satisfied env tx guard (conn r) \<and> conn r' = conn r"
    then show ?thesis by simp
  next
    assume inv: "Invoke (Execute env) invocable (conn r) tx = (None, conn r')"
    with post have "satisfied env tx guard (conn r')" by blast
    moreover have "\<forall>g\<in>G. satisfied env tx g (conn r) \<longrightarrow> satisfied env tx g (conn r')"
      using stable i inv by blast
    ultimately show ?thesis by simp
  qed
next
  case (Group children label abort)
  obtain e1 r1 where gc: "Group_children env children abort (Some (Migration label parent)) at 0 tx None
      (started at r) = (e1, r1)"
    by (cases "Group_children env children abort (Some (Migration label parent)) at 0 tx None (started at r)")
  with Group.prems(2) have e1: "e1 = None" and r': "conn r' = conn r1" by (auto simp: finished_def)
  have sub: "\<forall>p\<in>set (stepsOf c). fst p \<in> G \<and> snd p \<in> I
            \<and> (\<forall>c c'. Invoke (Execute env) (snd p) c tx = (None, c') \<longrightarrow> satisfied env tx (fst p) c')"
    if "c \<in> set children" for c
    using Group.prems(1) that by auto
  have each: "\<forall>c\<in>set children. \<forall>parent at r r'. Apply env c parent at tx r = (None, r') \<longrightarrow>
      (\<forall>g\<in>G. satisfied env tx g (conn r) \<longrightarrow> satisfied env tx g (conn r'))
      \<and> (\<forall>p\<in>set (stepsOf c). satisfied env tx (fst p) (conn r'))"
  proof (intro ballI allI impI)
    fix c par p ra rb
    assume c: "c \<in> set children" and ap: "Apply env c par p tx ra = (None, rb)"
    from Group.IH [OF c sub [OF c] ap]
    show "(\<forall>g\<in>G. satisfied env tx g (conn ra) \<longrightarrow> satisfied env tx g (conn rb))
      \<and> (\<forall>p\<in>set (stepsOf c). satisfied env tx (fst p) (conn rb))" .
  qed
  have inG: "\<forall>c\<in>set children. \<forall>p\<in>set (stepsOf c). fst p \<in> G"
    using sub by blast
  from gc e1 have "Group_children env children abort (Some (Migration label parent)) at 0 tx None
      (started at r) = (None, r1)" by simp
  from children_settle [OF each inG this]
  have "(\<forall>g\<in>G. satisfied env tx g (conn (started at r)) \<longrightarrow> satisfied env tx g (conn r1))
      \<and> (\<forall>c\<in>set children. \<forall>p\<in>set (stepsOf c). satisfied env tx (fst p) (conn r1))" .
  with r' show ?case by (auto simp: started_def)
qed

lemma Step_skipped:
  assumes "satisfied env tx guard (conn r)" and "reporter r = Some l"
  shows "\<exists>l' r'. Apply env (Step guard invocable label) parent at tx r = (None, r')
      \<and> conn r' = conn r \<and> reporter r' = Some l'
      \<and> applied l' = applied l \<and> skipped l' = skipped l + 1 \<and> failed l' = failed l"
proof -
  from assms(1) have g: "Evaluate (QueryIsEmpty env) guard (database (conn (started at r))) tx = Inr False"
    by (simp add: satisfied_def started_def)
  from Step_Apply_guard_false [OF g, of invocable "Migration label parent" at] assms(2)
  show ?thesis
    by (simp add: finished_def started_def reportSkipf_def Logger_Skipf_def Let_def)
qed

lemma children_skipped:
  assumes each: "\<forall>c\<in>set cs. \<forall>parent at r l.
      (\<forall>p\<in>set (stepsOf c). satisfied env tx (fst p) (conn r)) \<and> reporter r = Some l \<longrightarrow>
      (\<exists>l' r'. Apply env c parent at tx r = (None, r') \<and> conn r' = conn r \<and> reporter r' = Some l'
         \<and> applied l' = applied l \<and> skipped l' = skipped l + of_nat (length (stepsOf c))
         \<and> failed l' = failed l)"
  shows "(\<forall>c\<in>set cs. \<forall>p\<in>set (stepsOf c). satisfied env tx (fst p) (conn r)) \<Longrightarrow>
     reporter r = Some l \<Longrightarrow>
     \<exists>l' r'. Group_children env cs abort self at i tx first r = (first, r') \<and> conn r' = conn r
       \<and> reporter r' = Some l' \<and> applied l' = applied l
       \<and> skipped l' = skipped l + of_nat (length (concat (map stepsOf cs)))
       \<and> failed l' = failed l"
  using each
proof (induction cs arbitrary: i r l)
  case Nil
  then show ?case by simp
next
  case (Cons c cs)
  from Cons.prems(1) have sat_c: "\<forall>p\<in>set (stepsOf c). satisfied env tx (fst p) (conn r)" by simp
  with Cons.prems(2,3) obtain l1 r1 where
    ap: "Apply env c self (at @ [i]) tx r = (None, r1)" and c1: "conn r1 = conn r"
    and rep1: "reporter r1 = Some l1" and a1: "applied l1 = applied l"
    and s1: "skipped l1 = skipped l + of_nat (length (stepsOf c))" and f1: "failed l1 = failed l"
    by (metis list.set_intros(1))
  have sat_rest: "\<forall>c\<in>set cs. \<forall>p\<in>set (stepsOf c). satisfied env tx (fst p) (conn r1)"
    using Cons.prems(1) c1 by simp
  have each': "\<forall>c\<in>set cs. \<forall>parent at r l.
      (\<forall>p\<in>set (stepsOf c). satisfied env tx (fst p) (conn r)) \<and> reporter r = Some l \<longrightarrow>
      (\<exists>l' r'. Apply env c parent at tx r = (None, r') \<and> conn r' = conn r \<and> reporter r' = Some l'
         \<and> applied l' = applied l \<and> skipped l' = skipped l + of_nat (length (stepsOf c))
         \<and> failed l' = failed l)"
    using Cons.prems(3) by simp
  from Cons.IH [OF sat_rest rep1 each', of "Suc i"] obtain l2 r2 where
    rest: "Group_children env cs abort self at (Suc i) tx first r1 = (first, r2)"
    and c2: "conn r2 = conn r1" and rep2: "reporter r2 = Some l2" and a2: "applied l2 = applied l1"
    and s2: "skipped l2 = skipped l1 + of_nat (length (concat (map stepsOf cs)))"
    and f2: "failed l2 = failed l1" by blast
  have "Group_children env (c # cs) abort self at i tx first r = (first, r2)"
    using ap rest by simp
  moreover have "skipped l2 = skipped l + of_nat (length (concat (map stepsOf (c # cs))))"
    using s1 s2 by simp
  ultimately show ?case using c1 c2 rep2 a1 a2 f1 f2 by auto
qed

lemma Apply_skipped:
  "(\<forall>p\<in>set (stepsOf node). satisfied (env :: 'db Env) tx (fst p) (conn r)) \<Longrightarrow> reporter r = Some l \<Longrightarrow>
     \<exists>l' r'. Apply env node parent at tx r = (None, r') \<and> conn r' = conn r \<and> reporter r' = Some l'
       \<and> applied l' = applied l \<and> skipped l' = skipped l + of_nat (length (stepsOf node))
       \<and> failed l' = failed l"
proof (induction node arbitrary: parent at r l)
  case (Step guard invocable label)
  from Step.prems(1) have "satisfied env tx guard (conn r)" by simp
  from Step_skipped [OF this Step.prems(2), of invocable label parent at] show ?case by simp
next
  case (Group children label abort)
  have each: "\<forall>c\<in>set children. \<forall>parent at r l.
      (\<forall>p\<in>set (stepsOf c). satisfied env tx (fst p) (conn r)) \<and> reporter r = Some l \<longrightarrow>
      (\<exists>l' r'. Apply env c parent at tx r = (None, r') \<and> conn r' = conn r \<and> reporter r' = Some l'
         \<and> applied l' = applied l \<and> skipped l' = skipped l + of_nat (length (stepsOf c))
         \<and> failed l' = failed l)"
  proof (intro ballI allI impI)
    fix c par p la and ra :: "'db Run"
    assume c: "c \<in> set children"
      and h: "(\<forall>p\<in>set (stepsOf c). satisfied env tx (fst p) (conn ra)) \<and> reporter ra = Some la"
    then have h1: "\<forall>p\<in>set (stepsOf c). satisfied env tx (fst p) (conn ra)"
      and h2: "reporter ra = Some la" by simp_all
    from Group.IH [OF c h1 h2]
    show "\<exists>l' r'. Apply env c par p tx ra = (None, r') \<and> conn r' = conn ra \<and> reporter r' = Some l'
         \<and> applied l' = applied la \<and> skipped l' = skipped la + of_nat (length (stepsOf c))
         \<and> failed l' = failed la" .
  qed
  have sat: "\<forall>c\<in>set children. \<forall>p\<in>set (stepsOf c). satisfied env tx (fst p) (conn (started at r))"
    using Group.prems(1) by (auto simp: started_def)
  have rep: "reporter (started at r) = Some l" using Group.prems(2) by (simp add: started_def)
  from children_skipped [OF each sat rep, of abort "Some (Migration label parent)" at 0 None]
  obtain l' r' where
    gc: "Group_children env children abort (Some (Migration label parent)) at 0 tx None (started at r)
        = (None, r')"
    and "conn r' = conn (started at r)" "reporter r' = Some l'" "applied l' = applied l"
    "skipped l' = skipped l + of_nat (length (concat (map stepsOf children)))" "failed l' = failed l"
    by blast
  then show ?case by (simp add: finished_def started_def)
qed

text \<open>
  C4, as the claim states it, fails: that every guard reflects the post-condition of
  its own invocable does not make the second run skip every Step, because a later Step
  may undo what an earlier guard looks for. In the tree "drop \<open>t\<close> if it exists, then
  create \<open>t\<close> if it does not" (the shape of the repository's example program) each
  guard is satisfied right after its own invocable; the first run on the empty
  database ends without error, and the second run, from the database the first left
  and with fresh counters, applies both Steps: \<open>applied = 2\<close>, \<open>skipped = 0\<close>, with
  \<open>N = 2\<close>.
\<close>

theorem local_postconditions_not_enough:
  "reflectsPostconditions toyEnv None dropThenCreate
   \<and> countSteps dropThenCreate = 2
   \<and> fst (Apply toyEnv dropThenCreate None [] None countingRun) = None
   \<and> map_option applied (reporter (snd (Apply toyEnv dropThenCreate None [] None
        ((snd (Apply toyEnv dropThenCreate None [] None countingRun))\<lparr>reporter := Some quietLogger\<rparr>))))
      = Some 2
   \<and> map_option skipped (reporter (snd (Apply toyEnv dropThenCreate None [] None
        ((snd (Apply toyEnv dropThenCreate None [] None countingRun))\<lparr>reporter := Some quietLogger\<rparr>))))
      = Some 0"
proof (intro conjI)
  show "reflectsPostconditions toyEnv None dropThenCreate"
    by (auto simp: reflectsPostconditions_def dropThenCreate_def satisfied_def toyEnv_def
        toyCatalog_def rowFound_def dropTable_def createTable_def)
  show "countSteps dropThenCreate = 2" by (simp add: countSteps_def dropThenCreate_def)
  have first: "Apply toyEnv dropThenCreate None [] None countingRun =
      (None, countingRun\<lparr>conn := \<lparr>executed = [], database = [''t'']\<rparr>,
         reporter := Some (quietLogger\<lparr>applied := 1, skipped := 1, Result := ''applied''\<rparr>),
         trace := [ApplyBegin [], ApplyBegin [0], GuardEvaluated [0], ApplyEnd [0] None,
           ApplyBegin [1], GuardEvaluated [1], InvocableInvoked [1], ApplyEnd [1] None,
           ApplyEnd [] None]\<rparr>)"
    by (simp add: dropThenCreate_def countingRun_def quietLogger_def dropTable_def createTable_def
        rowFound_def Logger_write_def toy_defs)
  show "fst (Apply toyEnv dropThenCreate None [] None countingRun) = None" by (simp add: first)
  show "map_option applied (reporter (snd (Apply toyEnv dropThenCreate None [] None
        ((snd (Apply toyEnv dropThenCreate None [] None countingRun))\<lparr>reporter := Some quietLogger\<rparr>))))
      = Some 2"
    unfolding first
    by (simp add: dropThenCreate_def countingRun_def quietLogger_def dropTable_def createTable_def
        rowFound_def Logger_write_def toy_defs)
  show "map_option skipped (reporter (snd (Apply toyEnv dropThenCreate None [] None
        ((snd (Apply toyEnv dropThenCreate None [] None countingRun))\<lparr>reporter := Some quietLogger\<rparr>))))
      = Some 0"
    unfolding first
    by (simp add: dropThenCreate_def countingRun_def quietLogger_def dropTable_def createTable_def
        rowFound_def Logger_write_def toy_defs)
qed

text \<open>
  C4, amended. Let every Step's guard be satisfied wherever its own invocable has just
  succeeded, let no invocable of the tree, succeeding, disturb a satisfied guard of the
  tree, and let the first application end without error. Then a second application
  on the connection that the first one left, with a Reporter that counts from \<open>l\<close>,
  ends without error and leaves the connection alone; it applies nothing (\<open>applied\<close>
  is as in \<open>l\<close>), fails nothing, and skips every Step: \<open>skipped\<close> is that of \<open>l\<close> plus
  the number \<open>N\<close> of Steps of the tree, in the 64-bit arithmetic of the counters. With
  counters starting at zero that is \<open>applied = 0\<close> and \<open>skipped = N\<close>.
\<close>

theorem second_run_skips_all:
  assumes "reflectsPostconditions env tx node" and "undisturbed env tx node"
    and "Apply env node parent at tx r = (None, r1)"
    and "conn r2 = conn r1" and "reporter r2 = Some l"
  shows "\<exists>l' r3. Apply env node parent at tx r2 = (None, r3) \<and> reporter r3 = Some l'
     \<and> applied l' = applied l \<and> skipped l' = skipped l + of_nat (countSteps node)
     \<and> failed l' = failed l \<and> conn r3 = conn r1"
proof -
  let ?G = "fst ` set (stepsOf node)" and ?I = "snd ` set (stepsOf node)"
  have stable: "\<forall>g\<in>?G. \<forall>inv\<in>?I. \<forall>c c'. satisfied env tx g c
      \<and> Invoke (Execute env) inv c tx = (None, c') \<longrightarrow> satisfied env tx g c'"
    using assms(2) unfolding undisturbed_def by fastforce
  have own: "\<forall>p\<in>set (stepsOf node). fst p \<in> ?G \<and> snd p \<in> ?I
      \<and> (\<forall>c c'. Invoke (Execute env) (snd p) c tx = (None, c') \<longrightarrow> satisfied env tx (fst p) c')"
    using assms(1) unfolding reflectsPostconditions_def by fastforce
  from Apply_settles [OF stable own assms(3)]
  have "\<forall>p\<in>set (stepsOf node). satisfied env tx (fst p) (conn r1)" by simp
  with assms(4) have "\<forall>p\<in>set (stepsOf node). satisfied env tx (fst p) (conn r2)" by simp
  from Apply_skipped [OF this assms(5), of parent at] assms(4)
  show ?thesis by (auto simp: countSteps_def)
qed

text \<open>
  The amended C4 on the tree that creates the tables \<open>a\<close> and \<open>c\<close>: the hypotheses
  hold, and the second run has \<open>applied = 0\<close> and \<open>skipped = 2\<close>.
\<close>

theorem second_run_skips_all_witness:
  "reflectsPostconditions toyEnv None createBoth
   \<and> undisturbed toyEnv None createBoth
   \<and> countSteps createBoth = 2
   \<and> fst (Apply toyEnv createBoth None [] None countingRun) = None
   \<and> map_option applied (reporter (snd (Apply toyEnv createBoth None [] None
        ((snd (Apply toyEnv createBoth None [] None countingRun))\<lparr>reporter := Some quietLogger\<rparr>))))
      = Some 0
   \<and> map_option skipped (reporter (snd (Apply toyEnv createBoth None [] None
        ((snd (Apply toyEnv createBoth None [] None countingRun))\<lparr>reporter := Some quietLogger\<rparr>))))
      = Some 2"
proof -
  let ?first = "Apply toyEnv createBoth None [] None countingRun"
  let ?r2 = "(snd ?first)\<lparr>reporter := Some quietLogger\<rparr>"
  have h1: "reflectsPostconditions toyEnv None createBoth"
    by (auto simp: reflectsPostconditions_def createBoth_def satisfied_def toy_defs)
  have h2: "undisturbed toyEnv None createBoth"
    by (auto simp: undisturbed_def createBoth_def satisfied_def toy_defs split: if_splits)
  have n: "countSteps createBoth = 2" by (simp add: countSteps_def createBoth_def stepA_def stepC_def)
  have first: "fst ?first = None"
    by (simp add: createBoth_def countingRun_def quietLogger_def rowFound_def Logger_write_def toy_defs)
  then have h3: "?first = (None, snd ?first)" by (simp add: prod_eq_iff)
  have h4: "conn ?r2 = conn (snd ?first)" and h5: "reporter ?r2 = Some quietLogger" by simp_all
  from second_run_skips_all [OF h1 h2 h3 h4 h5] obtain l' r3 where
    "Apply toyEnv createBoth None [] None ?r2 = (None, r3)" "reporter r3 = Some l'"
    "applied l' = applied quietLogger" "skipped l' = skipped quietLogger + of_nat (countSteps createBoth)"
    by blast
  then have "map_option applied (reporter (snd (Apply toyEnv createBoth None [] None ?r2))) = Some 0"
    and "map_option skipped (reporter (snd (Apply toyEnv createBoth None [] None ?r2))) = Some 2"
    by (simp_all add: n quietLogger_def)
  with h1 h2 n first show ?thesis by simp
qed
end
